theory Spec2Isabelle
  imports Main "HOL-Library.AList" "HOL-Library.Multiset" "HOL-Library.Word"
begin

section \<open>JavaScript values of the experiment-files report\<close>

text \<open>
  The program (\<^verbatim>\<open>src/main.js\<close>) reads file records out of a parsed JSON search
  result, so the values it handles are JSON values, plus \<^verbatim>\<open>undefined\<close>, which a
  property read gives for a property that does not exist.

  \<^item> A string is a \<open>string\<close>; a character stands for one code unit below 256.
  \<^item> A number is an integer (\<open>JNum\<close>); fractions do not occur in the model.
  \<^item> An array is the list of its elements, an object the list of its own properties in
    insertion order (\<open>map_of\<close> reads a property).
\<close>

datatype jsval =
    JUndefined
  | JNull
  | JBool bool
  | JNum int
  | JStr string
  | JArr "jsval list"
  | JObj "(string \<times> jsval) list"

text \<open>
  How an evaluation can stop without a value. \<open>TypeError\<close> is the exception the
  JavaScript runtime throws (reading a property of \<^verbatim>\<open>undefined\<close> or
  \<^verbatim>\<open>null\<close>, calling or iterating something that is not callable or iterable,
  converting an object without a usable \<^verbatim>\<open>toString\<close>). \<open>Unmodelled\<close> marks
  an evaluation that leaves the JSON values: it reads a built-in object of the runtime
  (a method inherited from a prototype, say), writes onto the prototype of all objects,
  or needs floating-point arithmetic. The model says nothing about what the program
  does from there on, and the properties below name these inputs in their hypotheses.
\<close>

datatype js_failure = TypeError | Unmodelled

type_synonym 'a outcome = "js_failure + 'a"

definition and_then :: "'a outcome \<Rightarrow> ('a \<Rightarrow> 'b outcome) \<Rightarrow> 'b outcome" where
  "and_then r f = (case r of Inl e \<Rightarrow> Inl e | Inr v \<Rightarrow> f v)"

text \<open>ToBoolean: what an \<^verbatim>\<open>if\<close> takes for true.\<close>

fun truthy :: "jsval \<Rightarrow> bool" where
  "truthy JUndefined = False"
| "truthy JNull = False"
| "truthy (JBool b) = b"
| "truthy (JNum n) = (n \<noteq> 0)"
| "truthy (JStr s) = (s \<noteq> [])"
| "truthy (JArr xs) = True"
| "truthy (JObj kvs) = True"

text \<open>
  The names every plain object inherits from \<^verbatim>\<open>Object.prototype\<close> in Node.js.
  A read of one of them on an object that has no own property of that name gives a
  built-in function (for \<^verbatim>\<open>__proto__\<close>, the prototype object itself).
\<close>

definition object_prototype_names :: "string list" where
  "object_prototype_names =
     [''constructor'', ''__defineGetter__'', ''__defineSetter__'', ''hasOwnProperty'',
      ''__lookupGetter__'', ''__lookupSetter__'', ''isPrototypeOf'',
      ''propertyIsEnumerable'', ''toString'', ''valueOf'', ''__proto__'',
      ''toLocaleString'']"

definition inherited :: "string \<Rightarrow> bool" where
  "inherited p = (p \<in> set object_prototype_names)"

text \<open>
  A canonical array index: \<^verbatim>\<open>"0"\<close>, or decimal digits that do not start with
  \<^verbatim>\<open>0\<close>. Only such a property name is an element of an array or a character
  of a string.
\<close>

definition is_digit :: "char \<Rightarrow> bool" where
  "is_digit c = (48 \<le> (of_char c :: nat) \<and> (of_char c :: nat) \<le> 57)"

definition digit_value :: "char \<Rightarrow> nat" where
  "digit_value c = of_char c - 48"

definition array_index :: "string \<Rightarrow> nat option" where
  "array_index p =
     (if p = [] then None
      else if \<not> list_all is_digit p then None
      else if hd p = CHR ''0'' \<and> tl p \<noteq> [] then None
      else Some (foldl (\<lambda>n c. 10 * n + digit_value c) 0 p))"

text \<open>
  The names that arrays, strings, numbers and booleans inherit from their own prototypes
  (ECMAScript 2025 with its Annex B, as Node.js implements it); each of them inherits
  the names of \<^verbatim>\<open>Object.prototype\<close> as well.
\<close>

definition array_prototype_names :: "string list" where
  "array_prototype_names =
     [''at'', ''concat'', ''copyWithin'', ''entries'', ''every'', ''fill'', ''filter'',
      ''find'', ''findIndex'', ''findLast'', ''findLastIndex'', ''flat'', ''flatMap'',
      ''forEach'', ''includes'', ''indexOf'', ''join'', ''keys'', ''lastIndexOf'', ''map'',
      ''pop'', ''push'', ''reduce'', ''reduceRight'', ''reverse'', ''shift'', ''slice'',
      ''some'', ''sort'', ''splice'', ''toReversed'', ''toSorted'', ''toSpliced'',
      ''unshift'', ''values'', ''with'']"

definition string_prototype_names :: "string list" where
  "string_prototype_names =
     [''anchor'', ''at'', ''big'', ''blink'', ''bold'', ''charAt'', ''charCodeAt'',
      ''codePointAt'', ''concat'', ''endsWith'', ''fixed'', ''fontcolor'', ''fontsize'',
      ''includes'', ''indexOf'', ''isWellFormed'', ''italics'', ''lastIndexOf'', ''link'',
      ''localeCompare'', ''match'', ''matchAll'', ''normalize'', ''padEnd'', ''padStart'',
      ''repeat'', ''replace'', ''replaceAll'', ''search'', ''slice'', ''small'', ''split'',
      ''startsWith'', ''strike'', ''sub'', ''substr'', ''substring'', ''sup'',
      ''toLocaleLowerCase'', ''toLocaleUpperCase'', ''toLowerCase'', ''toUpperCase'',
      ''toWellFormed'', ''trim'', ''trimEnd'', ''trimLeft'', ''trimRight'', ''trimStart'']"

definition number_prototype_names :: "string list" where
  "number_prototype_names = [''toExponential'', ''toFixed'', ''toPrecision'']"

text \<open>
  \<^verbatim>\<open>value[p]\<close> for a string \<open>p\<close>. A read on \<^verbatim>\<open>undefined\<close> or
  \<^verbatim>\<open>null\<close> throws. Every other value gives its own property of that name (for an
  array and a string: \<^verbatim>\<open>length\<close> and the elements), a built-in when the name is
  inherited from a prototype, which the model does not follow, and \<^verbatim>\<open>undefined\<close>
  otherwise. A boolean inherits the names of \<^verbatim>\<open>Object.prototype\<close> only.
\<close>

fun get_prop :: "jsval \<Rightarrow> string \<Rightarrow> jsval outcome" where
  "get_prop JUndefined p = Inl TypeError"
| "get_prop JNull p = Inl TypeError"
| "get_prop (JObj kvs) p =
     (case map_of kvs p of
        Some v \<Rightarrow> Inr v
      | None \<Rightarrow> if inherited p then Inl Unmodelled else Inr JUndefined)"
| "get_prop (JArr xs) p =
     (if p = ''length'' then Inr (JNum (int (length xs)))
      else case array_index p of
        Some i \<Rightarrow> if i < length xs then Inr (xs ! i) else Inr JUndefined
      | None \<Rightarrow>
          if p \<in> set array_prototype_names \<or> inherited p then Inl Unmodelled
          else Inr JUndefined)"
| "get_prop (JStr s) p =
     (if p = ''length'' then Inr (JNum (int (length s)))
      else case array_index p of
        Some i \<Rightarrow> if i < length s then Inr (JStr [s ! i]) else Inr JUndefined
      | None \<Rightarrow>
          if p \<in> set string_prototype_names \<or> inherited p then Inl Unmodelled
          else Inr JUndefined)"
| "get_prop (JNum n) p =
     (if p \<in> set number_prototype_names \<or> inherited p then Inl Unmodelled else Inr JUndefined)"
| "get_prop (JBool b) p = (if inherited p then Inl Unmodelled else Inr JUndefined)"

section \<open>The field path resolver\<close>

text \<open>
  \<^verbatim>\<open>field.split('.')\<close>: the pieces between the dots, at least one piece (the
  empty string splits into one empty piece).
\<close>

fun split_dot :: "string \<Rightarrow> string list" where
  "split_dot [] = [[]]"
| "split_dot (c # cs) =
     (if c = CHR ''.'' then [] # split_dot cs
      else (case split_dot cs of
              [] \<Rightarrow> [[c]]
            | p # ps \<Rightarrow> (c # p) # ps))"

text \<open>
  \<^verbatim>\<open>parts.reduce((partObject, part) => partObject[part], object)\<close>: one property
  read per piece, left to right; an exception thrown by a read ends the reduction.
\<close>

fun descend :: "jsval outcome \<Rightarrow> string list \<Rightarrow> jsval outcome" where
  "descend acc [] = acc"
| "descend acc (part # parts) =
     descend (and_then acc (\<lambda>partObject. get_prop partObject part)) parts"

definition getObjectFieldValue :: "jsval \<Rightarrow> string \<Rightarrow> jsval outcome" where
  "getObjectFieldValue object field =
     (let parts = split_dot field in
      if length parts = 1 then get_prop object field
      else descend (Inr object) parts)"

section \<open>String conversion of a value\<close>

text \<open>
  The decimal digits of an integer, as \<^verbatim>\<open>String(n)\<close> writes them. The conversion
  is modelled for magnitudes up to \<open>2 ^ 53\<close>, the range in which every integer is a
  number of the runtime.
\<close>

function decimal_nat :: "nat \<Rightarrow> string" where
  "decimal_nat n =
     (if n < 10 then [char_of (48 + n)]
      else decimal_nat (n div 10) @ [char_of (48 + n mod 10)])"
  by pat_completeness auto
termination
  by (relation "measure id") auto

definition decimal :: "int \<Rightarrow> string" where
  "decimal n = (if n < 0 then CHR ''-'' # decimal_nat (nat (- n)) else decimal_nat (nat n))"

text \<open>
  ToString, which turns a value into a property key. An array joins its elements with
  commas, an \<^verbatim>\<open>undefined\<close> or \<^verbatim>\<open>null\<close> element giving the empty string. A
  plain object gives \<^verbatim>\<open>[object Object]\<close> through the inherited
  \<^verbatim>\<open>toString\<close>; an own property of that name holds a JSON value, which cannot be
  called, and then the conversion throws.
\<close>

fun to_string :: "jsval \<Rightarrow> string outcome"
  and join_elements :: "jsval list \<Rightarrow> string outcome" where
  "to_string JUndefined = Inr ''undefined''"
| "to_string JNull = Inr ''null''"
| "to_string (JBool b) = Inr (if b then ''true'' else ''false'')"
| "to_string (JNum n) = (if \<bar>n\<bar> \<le> 2 ^ 53 then Inr (decimal n) else Inl Unmodelled)"
| "to_string (JStr s) = Inr s"
| "to_string (JArr xs) = join_elements xs"
| "to_string (JObj kvs) =
     (if map_of kvs ''toString'' = None then Inr ''[object Object]'' else Inl TypeError)"
| "join_elements [] = Inr []"
| "join_elements (x # xs) =
     (case (if x = JUndefined \<or> x = JNull then Inr [] else to_string x) of
        Inl e \<Rightarrow> Inl e
      | Inr s \<Rightarrow>
          if xs = [] then Inr s
          else (case join_elements xs of
                  Inl e \<Rightarrow> Inl e
                | Inr rest \<Rightarrow> Inr (s @ '','' @ rest)))"

section \<open>The tally table\<close>

text \<open>
  \<^verbatim>\<open>filePropCounts\<close> is a plain object whose own properties are the field paths;
  each holds a plain object whose own properties are the values seen, each with what
  the program stored for it. That is a count, or, when \<^verbatim>\<open>+= 1\<close> was applied to
  something that is not a number, a text (\<open>Text\<close>; its characters are not followed).
  Counts stay far below \<open>2 ^ 53\<close>, where adding one is exact. The lists keep the order
  in which the properties were created; the properties below are stated by key, not by
  position.
\<close>

datatype cell = Count nat | Text

type_synonym counts = "(string \<times> cell) list"

type_synonym tally = "(string \<times> counts) list"

fun truthy_cell :: "cell \<Rightarrow> bool" where
  "truthy_cell (Count n) = (n \<noteq> 0)"
| "truthy_cell Text = True"

fun add_one :: "cell \<Rightarrow> cell" where
  "add_one (Count n) = Count (n + 1)"
| "add_one Text = Text"

text \<open>
  \<^verbatim>\<open>counts[key] = c\<close> on a plain object. For the key \<^verbatim>\<open>__proto__\<close> the
  assignment runs the inherited setter, which ignores a number or a string, unless the
  object has an own property of that name.
\<close>

definition assign :: "string \<Rightarrow> cell \<Rightarrow> counts \<Rightarrow> counts" where
  "assign key c cs =
     (if key = ''__proto__'' \<and> map_of cs key = None then cs else AList.update key c cs)"

text \<open>
  Lines 155 to 168 of \<^verbatim>\<open>main.js\<close>, for a value that passed \<^verbatim>\<open>if (fieldValue)\<close>.
  Both tests read a property of a plain object, so a name that is not an own property
  but is inherited reads as a built-in, which is truthy.
  \<^item> For the value's key, \<^verbatim>\<open>+= 1\<close> then stores the text of the built-in followed by
    \<^verbatim>\<open>1\<close>.
  \<^item> For the field path, \<^verbatim>\<open>filePropCounts[field]\<close> is a built-in function, and
    lines 157 to 163 read and write the property \<^verbatim>\<open>key\<close> of that function: the
    table stays as it is. Three keys are not followed: \<^verbatim>\<open>caller\<close> and
    \<^verbatim>\<open>arguments\<close>, whose read on a built-in function throws, and
    \<^verbatim>\<open>toString\<close>, whose write replaces the conversion of the built-in to a string.
  \<^item> For the field path \<^verbatim>\<open>__proto__\<close> the built-in is \<^verbatim>\<open>Object.prototype\<close>,
    and the write changes what every object inherits, which is not followed either.
\<close>

definition count_value :: "tally \<Rightarrow> string \<Rightarrow> jsval \<Rightarrow> tally outcome" where
  "count_value filePropCounts field fieldValue =
     (case map_of filePropCounts field of
        Some cs \<Rightarrow>
          and_then (to_string fieldValue) (\<lambda>key.
            case map_of cs key of
              Some c \<Rightarrow>
                if truthy_cell c
                then Inr (AList.update field (assign key (add_one c) cs) filePropCounts)
                else Inr (AList.update field (assign key (Count 1) cs) filePropCounts)
            | None \<Rightarrow>
                if inherited key
                then Inr (AList.update field (assign key Text cs) filePropCounts)
                else Inr (AList.update field (assign key (Count 1) cs) filePropCounts))
      | None \<Rightarrow>
          if inherited field
          then (if field = ''__proto__'' then Inl Unmodelled
                else and_then (to_string fieldValue) (\<lambda>key.
                  if key \<in> set [''caller'', ''arguments'', ''toString''] then Inl Unmodelled
                  else Inr filePropCounts))
          else and_then (to_string fieldValue) (\<lambda>key.
            Inr (AList.update field (assign key (Count 1) []) filePropCounts)))"

text \<open>\<^verbatim>\<open>fileFields.forEach((field) => ...)\<close> for one file (lines 152 to 170).\<close>

fun tally_fields :: "tally \<Rightarrow> jsval \<Rightarrow> string list \<Rightarrow> tally outcome" where
  "tally_fields filePropCounts file [] = Inr filePropCounts"
| "tally_fields filePropCounts file (field # fields) =
     (case getObjectFieldValue file field of
        Inl e \<Rightarrow> Inl e
      | Inr fieldValue \<Rightarrow>
          if truthy fieldValue
          then (case count_value filePropCounts field fieldValue of
                  Inl e \<Rightarrow> Inl e
                | Inr filePropCounts' \<Rightarrow> tally_fields filePropCounts' file fields)
          else tally_fields filePropCounts file fields)"

text \<open>\<^verbatim>\<open>files.forEach((file) => ...)\<close> (lines 151 to 171).\<close>

fun tally_files :: "tally \<Rightarrow> jsval list \<Rightarrow> string list \<Rightarrow> tally outcome" where
  "tally_files filePropCounts [] fileFields = Inr filePropCounts"
| "tally_files filePropCounts (file # files) fileFields =
     (case tally_fields filePropCounts file fileFields of
        Inl e \<Rightarrow> Inl e
      | Inr filePropCounts' \<Rightarrow> tally_files filePropCounts' files fileFields)"

text \<open>The tally engine: the table starts as the empty object (line 150).\<close>

definition tally_engine :: "jsval list \<Rightarrow> string list \<Rightarrow> tally outcome" where
  "tally_engine files fileFields = tally_files [] files fileFields"

section \<open>From the search result to the tally\<close>

text \<open>
  ToNumber of a string, as far as \<^verbatim>\<open>s > 0\<close> needs it. White space at both ends
  is dropped. Decimal digits alone (or nothing) are that integer; a character that no
  numeric literal contains makes the string NaN, which is not greater than 0. What is
  left (signs, fractions, exponents, hexadecimal) needs the rounding of floating-point
  numbers and is not modelled.
\<close>

definition is_space :: "char \<Rightarrow> bool" where
  "is_space c = ((of_char c :: nat) \<in> set [9, 10, 11, 12, 13, 32, 160])"

definition trim :: "string \<Rightarrow> string" where
  "trim s = rev (dropWhile is_space (rev (dropWhile is_space s)))"

definition numeric_char :: "char \<Rightarrow> bool" where
  "numeric_char c = (is_digit c \<or> c \<in> set ''+-.abcdefABCDEFxXoOInity'')"

definition string_greater_than_zero :: "string \<Rightarrow> bool outcome" where
  "string_greater_than_zero s =
     (let t = trim s in
      if list_all is_digit t then Inr (\<not> list_all (\<lambda>c. c = CHR ''0'') t)
      else if list_all numeric_char t then Inl Unmodelled
      else Inr False)"

text \<open>
  \<^verbatim>\<open>x > 0\<close> for the value read as \<^verbatim>\<open>experiment.files.length\<close>. A number
  compares as it is, \<^verbatim>\<open>undefined\<close> converts to NaN and \<^verbatim>\<open>null\<close> to 0 (both
  give false), \<^verbatim>\<open>true\<close> converts to 1. An array and an object convert to their
  string first, and a string to the number it writes.
\<close>

fun greater_than_zero :: "jsval \<Rightarrow> bool outcome" where
  "greater_than_zero (JNum n) = Inr (0 < n)"
| "greater_than_zero JUndefined = Inr False"
| "greater_than_zero JNull = Inr False"
| "greater_than_zero (JBool b) = Inr b"
| "greater_than_zero (JStr s) = string_greater_than_zero s"
| "greater_than_zero (JArr xs) = and_then (to_string (JArr xs)) string_greater_than_zero"
| "greater_than_zero (JObj kvs) = and_then (to_string (JObj kvs)) string_greater_than_zero"

text \<open>
  \<^verbatim>\<open>...value\<close> in the arguments of \<^verbatim>\<open>push\<close>: the elements of an array, the
  characters of a string; anything else is not iterable.
\<close>

fun spread :: "jsval \<Rightarrow> jsval list outcome" where
  "spread (JArr xs) = Inr xs"
| "spread (JStr s) = Inr (map (\<lambda>c. JStr [c]) s)"
| "spread JUndefined = Inl TypeError"
| "spread JNull = Inl TypeError"
| "spread (JBool b) = Inl TypeError"
| "spread (JNum n) = Inl TypeError"
| "spread (JObj kvs) = Inl TypeError"

text \<open>The callback of lines 143 to 147, over the experiments in order.\<close>

fun collect_files :: "jsval list \<Rightarrow> jsval list \<Rightarrow> jsval list outcome" where
  "collect_files files [] = Inr files"
| "collect_files files (experiment # experiments) =
     (case get_prop experiment ''files'' of
        Inl e \<Rightarrow> Inl e
      | Inr experiment_files \<Rightarrow>
          if \<not> truthy experiment_files then collect_files files experiments
          else (case get_prop experiment_files ''length'' of
                  Inl e \<Rightarrow> Inl e
                | Inr len \<Rightarrow>
                    (case greater_than_zero len of
                       Inl e \<Rightarrow> Inl e
                     | Inr positive \<Rightarrow>
                         if positive
                         then (case spread experiment_files of
                                 Inl e \<Rightarrow> Inl e
                               | Inr more \<Rightarrow> collect_files (files @ more) experiments)
                         else collect_files files experiments)))"

text \<open>
  \<^verbatim>\<open>cartData['@graph'].forEach\<close>: the property read throws on \<^verbatim>\<open>undefined\<close>
  and \<^verbatim>\<open>null\<close>, and only an array has a \<^verbatim>\<open>forEach\<close> to call.
\<close>

definition graph_experiments :: "jsval \<Rightarrow> jsval list outcome" where
  "graph_experiments cartData =
     and_then (get_prop cartData ''@graph'')
       (\<lambda>graph. case graph of JArr experiments \<Rightarrow> Inr experiments | _ \<Rightarrow> Inl TypeError)"

text \<open>
  The callback of \<^verbatim>\<open>filePropCountPromise\<close> (lines 140 to 173): what the promise
  resolves to, or the exception it is rejected with.
\<close>

definition filePropCountPromise :: "jsval \<Rightarrow> string list \<Rightarrow> tally outcome" where
  "filePropCountPromise cartData fileFields =
     and_then (graph_experiments cartData) (\<lambda>experiments.
       and_then (collect_files [] experiments) (\<lambda>files.
         tally_engine files fileFields))"

section \<open>The search client\<close>

text \<open>
  The request \<^verbatim>\<open>cartQuery\<close> hands to \<^verbatim>\<open>fetch\<close> (lines 51 to 62).
  \<^verbatim>\<open>JSON.stringify\<close> belongs to the runtime and is a parameter.
\<close>

record request =
  url :: string
  http_method :: string
  headers :: "(string \<times> string) list"
  body :: string

text \<open>\<^verbatim>\<open>parts.join(sep)\<close>.\<close>

fun join_with :: "string \<Rightarrow> string list \<Rightarrow> string" where
  "join_with sep [] = []"
| "join_with sep [x] = x"
| "join_with sep (x # y # ys) = x @ sep @ join_with sep (y # ys)"

definition cartQuery_request ::
  "(jsval \<Rightarrow> string) \<Rightarrow> jsval \<Rightarrow> string list \<Rightarrow> string \<Rightarrow> string \<Rightarrow> request" where
  "cartQuery_request stringify experiments field_paths host auth =
     (let fieldQuery = join_with ''&'' (map (\<lambda>field. ''field=files.'' @ field) field_paths) in
      \<lparr> url = host @ ''/search_elements/type=Experiment&'' @ fieldQuery
                @ ''&field=files.restricted&limit=all&filterresponse=off'',
        http_method = ''POST'',
        headers = [(''Accept'', ''application/json''),
                   (''Content-Type'', ''application/json''),
                   (''Authorization'', auth)],
        body = stringify (JObj [(''@id'', experiments)]) \<rparr>)"

text \<open>
  The URL as the specification writes it: one \<^verbatim>\<open>&field=files.f\<close> for each
  requested path after the type filter, then the fixed parameters.
\<close>

definition spec_search_url :: "string \<Rightarrow> string list \<Rightarrow> string" where
  "spec_search_url server field_paths =
     server @ ''/search_elements/type=Experiment''
       @ concat (map (\<lambda>f. ''&field=files.'' @ f) field_paths)
       @ ''&field=files.restricted&limit=all&filterresponse=off''"

text \<open>
  What \<^verbatim>\<open>fetch\<close> can come back with: a rejection (transport failure, with the
  text of the error), or a response with its \<^verbatim>\<open>ok\<close> flag and what
  \<^verbatim>\<open>response.json()\<close> gives (the parsed body, or the text of the parse error).
\<close>

datatype fetch_result = Rejected string | Responded bool "string + jsval"

text \<open>
  The \<^verbatim>\<open>then\<close> and \<^verbatim>\<open>catch\<close> handlers of \<^verbatim>\<open>cartQuery\<close> (lines 63 to 71):
  the value the returned promise resolves to, and the lines written to the console.
  The \<^verbatim>\<open>catch\<close> handler returns nothing, so the promise resolves to
  \<^verbatim>\<open>undefined\<close>.
\<close>

definition cartQuery_result :: "fetch_result \<Rightarrow> jsval \<times> string list" where
  "cartQuery_result r =
     (case r of
        Rejected e \<Rightarrow> (JUndefined, [''OBJECT LOAD ERROR: '' @ e])
      | Responded ok parsed \<Rightarrow>
          if ok
          then (case parsed of
                  Inr v \<Rightarrow> (v, [])
                | Inl e \<Rightarrow> (JUndefined, [''OBJECT LOAD ERROR: '' @ e]))
          else (JUndefined, [''OBJECT LOAD ERROR: Error: not ok'']))"

section \<open>The authorization string\<close>

text \<open>UTF-8 of one code unit below 256: one byte below 128, two bytes from there on.\<close>

definition utf8 :: "char \<Rightarrow> 8 word list" where
  "utf8 c =
     (let n = (of_char c :: nat) in
      if n < 128 then [of_nat n]
      else [of_nat (192 + n div 64), of_nat (128 + n mod 64)])"

definition hex_digit :: "nat \<Rightarrow> char" where
  "hex_digit d = ''0123456789ABCDEF'' ! d"

definition percent :: "8 word \<Rightarrow> string" where
  "percent b = [CHR ''%'', hex_digit (unat b div 16), hex_digit (unat b mod 16)]"

text \<open>
  \<^verbatim>\<open>encodeURIComponent\<close>: letters, digits and \<^verbatim>\<open>- _ . ! ~ * ' ( )\<close> stay; every
  other character becomes its UTF-8 bytes, each written \<^verbatim>\<open>%XX\<close>.
\<close>

definition unreserved :: "char \<Rightarrow> bool" where
  "unreserved c =
     (let n = (of_char c :: nat) in
      (65 \<le> n \<and> n \<le> 90) \<or> (97 \<le> n \<and> n \<le> 122) \<or> (48 \<le> n \<and> n \<le> 57)
      \<or> c \<in> set ''-_.!~*'()'')"

definition encodeURIComponent :: "string \<Rightarrow> string" where
  "encodeURIComponent s =
     concat (map (\<lambda>c. if unreserved c then [c] else concat (map percent (utf8 c))) s)"

definition is_hex :: "char \<Rightarrow> bool" where
  "is_hex c =
     (let n = (of_char c :: nat) in
      (48 \<le> n \<and> n \<le> 57) \<or> (65 \<le> n \<and> n \<le> 70) \<or> (97 \<le> n \<and> n \<le> 102))"

definition hex_value :: "char \<Rightarrow> nat" where
  "hex_value c =
     (let n = (of_char c :: nat) in
      if n \<le> 57 then n - 48 else if n \<le> 70 then n - 55 else n - 87)"

definition hex_number :: "string \<Rightarrow> nat" where
  "hex_number ds = foldl (\<lambda>n d. 16 * n + hex_value d) 0 ds"

text \<open>
  \<^verbatim>\<open>unescape\<close>: \<^verbatim>\<open>%uXXXX\<close> and \<^verbatim>\<open>%XX\<close> become the code unit with that
  number, every other character stays. A code unit of 256 or more has no character in
  the model.
\<close>

function unescape :: "string \<Rightarrow> string outcome" where
  "unescape [] = Inr []"
| "unescape (c # cs) =
     (if c = CHR ''%'' \<and> 5 \<le> length cs \<and> hd cs = CHR ''u'' \<and> list_all is_hex (take 4 (tl cs))
      then (if hex_number (take 4 (tl cs)) < 256
            then (case unescape (drop 5 cs) of
                    Inl e \<Rightarrow> Inl e
                  | Inr rest \<Rightarrow> Inr (char_of (hex_number (take 4 (tl cs))) # rest))
            else Inl Unmodelled)
      else if c = CHR ''%'' \<and> 2 \<le> length cs \<and> list_all is_hex (take 2 cs)
      then (case unescape (drop 2 cs) of
              Inl e \<Rightarrow> Inl e
            | Inr rest \<Rightarrow> Inr (char_of (hex_number (take 2 cs)) # rest))
      else (case unescape cs of
              Inl e \<Rightarrow> Inl e
            | Inr rest \<Rightarrow> Inr (c # rest)))"
  by pat_completeness auto
termination
  by (relation "measure length") auto

text \<open>The string whose code units are the given bytes.\<close>

definition binary_string :: "8 word list \<Rightarrow> string" where
  "binary_string bs = map (\<lambda>b. char_of (unat b)) bs"

text \<open>\<^verbatim>\<open>Buffer.from(s)\<close>: the UTF-8 bytes of the string.\<close>

definition buffer_from :: "string \<Rightarrow> 8 word list" where
  "buffer_from s = concat (map utf8 s)"

text \<open>\<^verbatim>\<open>buffer.toString('base64')\<close>: three bytes give four characters, with padding.\<close>

definition base64_char :: "nat \<Rightarrow> char" where
  "base64_char n =
     ''ABCDEFGHIJKLMNOPQRSTUVWXYZabcdefghijklmnopqrstuvwxyz0123456789+/'' ! n"

fun base64 :: "8 word list \<Rightarrow> string" where
  "base64 [] = []"
| "base64 [a] =
     [base64_char (unat a div 4), base64_char (unat a mod 4 * 16), CHR ''='', CHR ''='']"
| "base64 [a, b] =
     [base64_char (unat a div 4), base64_char (unat a mod 4 * 16 + unat b div 16),
      base64_char (unat b mod 16 * 4), CHR ''='']"
| "base64 (a # b # c # rest) =
     [base64_char (unat a div 4), base64_char (unat a mod 4 * 16 + unat b div 16),
      base64_char (unat b mod 16 * 4 + unat c div 64), base64_char (unat c mod 64)]
     @ base64 rest"

text \<open>\<^verbatim>\<open>keypairToAuth\<close> (lines 17 to 19).\<close>

definition keypairToAuth :: "string \<Rightarrow> string \<Rightarrow> string outcome" where
  "keypairToAuth key secret =
     and_then (unescape (encodeURIComponent (key @ '':'' @ secret)))
       (\<lambda>binary. Inr (''Basic '' @ base64 (buffer_from binary)))"

text \<open>
  The header as the specification writes it: \<^verbatim>\<open>Basic\<close>, a space, and the base64
  encoding of the bytes of \<^verbatim>\<open>key:secret\<close>.
\<close>

definition spec_authorization :: "string \<Rightarrow> string \<Rightarrow> string" where
  "spec_authorization key secret = ''Basic '' @ base64 (concat (map utf8 (key @ '':'' @ secret)))"

section \<open>Reading the table\<close>

text \<open>
  What the table holds for a field path and a key, and which files a count is about:
  a file counts for a field path and a key when the path resolves to a truthy value
  whose string conversion is the key.
\<close>

definition stored :: "tally \<Rightarrow> string \<Rightarrow> string \<Rightarrow> cell option" where
  "stored t field key = (case map_of t field of None \<Rightarrow> None | Some cs \<Rightarrow> map_of cs key)"

fun cell_count :: "cell \<Rightarrow> nat" where
  "cell_count (Count n) = n"
| "cell_count Text = 0"

definition field_total :: "tally \<Rightarrow> string \<Rightarrow> nat" where
  "field_total t field =
     (case map_of t field of None \<Rightarrow> 0 | Some cs \<Rightarrow> sum_list (map (\<lambda>kc. cell_count (snd kc)) cs))"

definition resolves_truthy :: "jsval \<Rightarrow> string \<Rightarrow> bool" where
  "resolves_truthy file field =
     (case getObjectFieldValue file field of Inl e \<Rightarrow> False | Inr v \<Rightarrow> truthy v)"

definition resolves_to :: "jsval \<Rightarrow> string \<Rightarrow> string \<Rightarrow> bool" where
  "resolves_to file field key =
     (case getObjectFieldValue file field of
        Inl e \<Rightarrow> False
      | Inr v \<Rightarrow> truthy v \<and> to_string v = Inr key)"

text \<open>
  A file and a field path within the model that keep to plain names: resolving the path
  either throws or gives a JSON value; when that value is truthy, the field path is not
  a name that plain objects inherit, and the conversion of the value to a string either
  throws or gives a key that plain objects do not inherit.
\<close>

definition plain_pair :: "jsval \<Rightarrow> string \<Rightarrow> bool" where
  "plain_pair file field =
     (case getObjectFieldValue file field of
        Inl e \<Rightarrow> e = TypeError
      | Inr v \<Rightarrow>
          if truthy v
          then \<not> inherited field
               \<and> (case to_string v of Inl e \<Rightarrow> e = TypeError | Inr key \<Rightarrow> \<not> inherited key)
          else True)"

definition plain_input :: "jsval list \<Rightarrow> string list \<Rightarrow> bool" where
  "plain_input files field_paths =
     list_all (\<lambda>file. list_all (plain_pair file) field_paths) files"

text \<open>
  A file and a field path the tally engine gets through without an exception: the path
  resolves, and a truthy value converts to a string.
\<close>

definition can_count :: "jsval \<Rightarrow> string \<Rightarrow> bool" where
  "can_count file field =
     (case getObjectFieldValue file field of
        Inl e \<Rightarrow> False
      | Inr v \<Rightarrow>
          if truthy v then (case to_string v of Inl e \<Rightarrow> False | Inr key \<Rightarrow> True)
          else True)"

text \<open>A count as the table holds it: no entry for zero.\<close>

definition count_cell :: "nat \<Rightarrow> cell option" where
  "count_cell n = (if n = 0 then None else Some (Count n))"

section \<open>Properties\<close>

subsection \<open>Auxiliary facts\<close>

lemma and_then_simps [simp]:
  "and_then (Inl e) f = Inl e"
  "and_then (Inr v) f = f v"
  by (simp_all add: and_then_def)

lemma descend_Inl [simp]: "descend (Inl e) parts = Inl e"
  by (induction parts) simp_all

lemma split_dot_no_dot: "CHR ''.'' \<notin> set field \<Longrightarrow> split_dot field = [field]"
  by (induction field) auto

lemmas resolver_eval = getObjectFieldValue_def inherited_def object_prototype_names_def
  array_prototype_names_def string_prototype_names_def number_prototype_names_def
  array_index_def is_digit_def

lemmas tally_eval = resolver_eval tally_engine_def count_value_def assign_def

lemma inherited_proto: "inherited ''__proto__''"
  by (simp add: inherited_def object_prototype_names_def)

lemma assign_plain: "\<not> inherited key \<Longrightarrow> assign key c cs = AList.update key c cs"
  using inherited_proto by (auto simp: assign_def)

lemma stored_update:
  "stored (AList.update field cs t) f k = (if f = field then map_of cs k else stored t f k)"
  by (simp add: stored_def update_conv')

lemma count_value_key:
  assumes "count_value t field v = Inr t'"
  shows "\<exists>key. to_string v = Inr key"
  using assms by (cases "to_string v") (auto simp: count_value_def split: option.splits if_splits)

lemma count_value_stored:
  assumes inv: "\<And>f k. stored t f k = count_cell (m f k)"
    and step: "count_value t field v = Inr t'"
    and key: "to_string v = Inr key"
    and plain: "\<not> inherited key"
    and nf: "\<not> inherited field"
  shows "stored t' f k = count_cell (m f k + (if f = field \<and> k = key then 1 else 0))"
proof (cases "map_of t field")
  case None
  then have zero: "m field k' = 0" for k'
    using inv [of field k'] by (simp add: stored_def count_cell_def split: if_splits)
  from None step key nf have t': "t' = AList.update field (assign key (Count 1) []) t"
    by (auto simp: count_value_def split: if_splits)
  show ?thesis
    by (simp add: t' stored_update assign_plain [OF plain] zero inv count_cell_def)
next
  case (Some cs)
  then have cs: "map_of cs k' = count_cell (m field k')" for k'
    using inv [of field k'] by (simp add: stored_def)
  show ?thesis
  proof (cases "m field key = 0")
    case True
    with cs [of key] have "map_of cs key = None" by (simp add: count_cell_def)
    with Some step key plain have t': "t' = AList.update field (assign key (Count 1) cs) t"
      by (auto simp: count_value_def)
    show ?thesis
      using True by (simp add: t' stored_update assign_plain [OF plain] update_conv' cs inv count_cell_def)
  next
    case False
    with cs [of key] have "map_of cs key = Some (Count (m field key))" by (simp add: count_cell_def)
    with Some step key False
    have t': "t' = AList.update field (assign key (Count (m field key + 1)) cs) t"
      by (auto simp: count_value_def)
    show ?thesis
      using False by (simp add: t' stored_update assign_plain [OF plain] update_conv' cs inv count_cell_def)
  qed
qed

lemma sum_update_absent:
  "map_of cs k = None \<Longrightarrow>
   (\<Sum>kc\<leftarrow>AList.update k c cs. cell_count (snd kc)) = (\<Sum>kc\<leftarrow>cs. cell_count (snd kc)) + cell_count c"
  by (induction cs) (auto split: if_splits)

lemma sum_update_present:
  "map_of cs k = Some c0 \<Longrightarrow>
   (\<Sum>kc\<leftarrow>AList.update k c cs. cell_count (snd kc)) + cell_count c0
     = (\<Sum>kc\<leftarrow>cs. cell_count (snd kc)) + cell_count c"
  by (induction cs) (auto split: if_splits)

lemma field_total_update:
  "field_total (AList.update field cs t) f =
     (if f = field then (\<Sum>kc\<leftarrow>cs. cell_count (snd kc)) else field_total t f)"
  by (simp add: field_total_def update_conv')

lemma count_value_total:
  assumes inv: "\<And>f k. stored t f k = count_cell (m f k)"
    and step: "count_value t field v = Inr t'"
    and key: "to_string v = Inr key"
    and plain: "\<not> inherited key"
    and nf: "\<not> inherited field"
  shows "field_total t' f = field_total t f + (if f = field then 1 else 0)"
proof (cases "map_of t field")
  case None
  from None step key nf have t': "t' = AList.update field (assign key (Count 1) []) t"
    by (auto simp: count_value_def split: if_splits)
  show ?thesis
    using None by (simp add: t' field_total_update assign_plain [OF plain]) (simp add: field_total_def)
next
  case (Some cs)
  then have cs: "map_of cs k' = count_cell (m field k')" for k'
    using inv [of field k'] by (simp add: stored_def)
  show ?thesis
  proof (cases "m field key = 0")
    case True
    with cs [of key] have absent: "map_of cs key = None" by (simp add: count_cell_def)
    with Some step key plain have t': "t' = AList.update field (assign key (Count 1) cs) t"
      by (auto simp: count_value_def)
    show ?thesis
      using Some
      by (simp add: t' field_total_update assign_plain [OF plain] sum_update_absent [OF absent])
         (simp add: field_total_def)
  next
    case False
    with cs [of key] have present: "map_of cs key = Some (Count (m field key))"
      by (simp add: count_cell_def)
    with Some step key False
    have t': "t' = AList.update field (assign key (Count (m field key + 1)) cs) t"
      by (auto simp: count_value_def)
    show ?thesis
      using Some sum_update_present [OF present, of "Count (m field key + 1)"]
      by (simp add: t' field_total_update assign_plain [OF plain]) (simp add: field_total_def)
  qed
qed


lemma resolves_to_truthy: "resolves_to file f k \<Longrightarrow> resolves_truthy file f"
  by (auto simp: resolves_to_def resolves_truthy_def split: sum.splits)

lemma tally_fields_stored:
  assumes "\<And>f k. stored t f k = count_cell (m f k)"
    and "tally_fields t file fs = Inr t'"
    and "list_all (plain_pair file) fs"
  shows "(\<forall>f k. stored t' f k
            = count_cell (m f k + count_list fs f * (if resolves_to file f k then 1 else 0)))
       \<and> (\<forall>f. field_total t' f
            = field_total t f + count_list fs f * (if resolves_truthy file f then 1 else 0))"
  using assms
proof (induction fs arbitrary: t m)
  case Nil
  then show ?case by simp
next
  case (Cons field fs)
  from Cons.prems(2) obtain v where v: "getObjectFieldValue file field = Inr v"
    by (cases "getObjectFieldValue file field") auto
  show ?case
  proof (cases "truthy v")
    case False
    with v Cons.prems have run: "tally_fields t file fs = Inr t'" and pl: "list_all (plain_pair file) fs"
      by auto
    have no: "\<not> resolves_to file field k" "\<not> resolves_truthy file field" for k
      using v False by (simp_all add: resolves_to_def resolves_truthy_def)
    from Cons.IH [OF Cons.prems(1) run pl] show ?thesis
      by (auto simp: no)
  next
    case True
    with v Cons.prems(2) obtain t1 where step: "count_value t field v = Inr t1"
      and run: "tally_fields t1 file fs = Inr t'"
      by (cases "count_value t field v") auto
    from count_value_key [OF step] obtain key where key: "to_string v = Inr key" by blast
    from Cons.prems(3) have pk: "plain_pair file field" and pl: "list_all (plain_pair file) fs"
      by simp_all
    from pk v True key have plain: "\<not> inherited key" and nf: "\<not> inherited field"
      by (simp_all add: plain_pair_def)
    let ?m1 = "\<lambda>f k. m f k + (if f = field \<and> k = key then 1 else 0)"
    have inv1: "\<And>f k. stored t1 f k = count_cell (?m1 f k)"
      using count_value_stored [OF Cons.prems(1) step key plain nf] by simp
    have tot1: "\<And>f. field_total t1 f = field_total t f + (if f = field then 1 else 0)"
      using count_value_total [OF Cons.prems(1) step key plain nf] by simp
    have hit: "resolves_to file field k \<longleftrightarrow> k = key" "resolves_truthy file field" for k
      using v True key by (auto simp: resolves_to_def resolves_truthy_def)
    from Cons.IH [of t1 ?m1, OF inv1 run pl]
    have A: "\<And>f k. stored t' f k
              = count_cell (?m1 f k + count_list fs f * (if resolves_to file f k then 1 else 0))"
      and B: "\<And>f. field_total t' f
              = field_total t1 f + count_list fs f * (if resolves_truthy file f then 1 else 0)"
      by auto
    show ?thesis
    proof (intro conjI allI)
      fix f k
      show "stored t' f k = count_cell (m f k + count_list (field # fs) f
                               * (if resolves_to file f k then 1 else 0))"
        using A [of f k] hit by auto
    next
      fix f
      show "field_total t' f = field_total t f + count_list (field # fs) f
                               * (if resolves_truthy file f then 1 else 0)"
        using B [of f] tot1 [of f] hit by auto
    qed
  qed
qed

lemma tally_files_stored:
  assumes "\<And>f k. stored t f k = count_cell (m f k)"
    and "tally_files t files fs = Inr t'"
    and "plain_input files fs"
  shows "(\<forall>f k. stored t' f k
            = count_cell (m f k + count_list fs f * length (filter (\<lambda>file. resolves_to file f k) files)))
       \<and> (\<forall>f. field_total t' f
            = field_total t f + count_list fs f * length (filter (\<lambda>file. resolves_truthy file f) files))"
  using assms
proof (induction files arbitrary: t m)
  case Nil
  then show ?case by simp
next
  case (Cons x xs)
  from Cons.prems(2) obtain t1 where one: "tally_fields t x fs = Inr t1"
    and run: "tally_files t1 xs fs = Inr t'"
    by (cases "tally_fields t x fs") auto
  from Cons.prems(3) have pl1: "list_all (plain_pair x) fs" and pl: "plain_input xs fs"
    by (simp_all add: plain_input_def)
  let ?m1 = "\<lambda>f k. m f k + count_list fs f * (if resolves_to x f k then 1 else 0)"
  from tally_fields_stored [OF Cons.prems(1) one pl1]
  have inv1: "\<And>f k. stored t1 f k = count_cell (?m1 f k)"
    and tot1: "\<And>f. field_total t1 f
                 = field_total t f + count_list fs f * (if resolves_truthy x f then 1 else 0)"
    by auto
  from Cons.IH [of t1 ?m1, OF inv1 run pl]
  have A: "\<And>f k. stored t' f k
            = count_cell (?m1 f k + count_list fs f * length (filter (\<lambda>y. resolves_to y f k) xs))"
    and B: "\<And>f. field_total t' f
            = field_total t1 f + count_list fs f * length (filter (\<lambda>y. resolves_truthy y f) xs)"
    by auto
  show ?case
  proof (intro conjI allI)
    fix f k
    show "stored t' f k = count_cell (m f k + count_list fs f
             * length (filter (\<lambda>y. resolves_to y f k) (x # xs)))"
      using A [of f k] by (simp add: algebra_simps)
  next
    fix f
    show "field_total t' f = field_total t f + count_list fs f
             * length (filter (\<lambda>y. resolves_truthy y f) (x # xs))"
      using B [of f] tot1 [of f] by (simp add: algebra_simps)
  qed
qed

lemma tally_engine_stored:
  assumes "tally_engine files fs = Inr t" and "plain_input files fs"
  shows "stored t f k
           = count_cell (count_list fs f * length (filter (\<lambda>file. resolves_to file f k) files))"
    and "field_total t f
           = count_list fs f * length (filter (\<lambda>file. resolves_truthy file f) files)"
proof -
  have inv0: "\<And>f k. stored [] f k = count_cell ((\<lambda>f k. 0) f k)"
    by (simp add: stored_def count_cell_def)
  from assms(1) have run: "tally_files [] files fs = Inr t"
    by (simp add: tally_engine_def)
  from tally_files_stored [of "[]" "\<lambda>f k. 0", OF inv0 run assms(2)]
  show "stored t f k
          = count_cell (count_list fs f * length (filter (\<lambda>file. resolves_to file f k) files))"
    and "field_total t f
          = count_list fs f * length (filter (\<lambda>file. resolves_truthy file f) files)"
    by (simp_all add: field_total_def)
qed

lemma count_value_returns:
  assumes "\<not> inherited field"
  shows "(\<exists>t'. count_value t field v = Inr t') \<longleftrightarrow> (\<exists>key. to_string v = Inr key)"
  using assms
  by (cases "to_string v"; cases "map_of t field")
     (auto simp: count_value_def split: option.splits)

lemma count_value_modelled:
  assumes "\<not> inherited field" and "to_string v \<noteq> Inl Unmodelled"
  shows "count_value t field v \<noteq> Inl Unmodelled"
  using assms
  by (cases "to_string v"; cases "map_of t field")
     (auto simp: count_value_def split: option.splits)

lemma tally_fields_modelled:
  assumes "list_all (plain_pair file) fs"
  shows "tally_fields t file fs \<noteq> Inl Unmodelled"
  using assms
proof (induction fs arbitrary: t)
  case Nil
  then show ?case by simp
next
  case (Cons field fs)
  then have pk: "plain_pair file field" and pl: "list_all (plain_pair file) fs"
    by simp_all
  show ?case
  proof (cases "getObjectFieldValue file field")
    case (Inl e)
    with pk show ?thesis by (simp add: plain_pair_def)
  next
    case (Inr v)
    show ?thesis
    proof (cases "truthy v")
      case False
      with Inr Cons.IH [OF pl] show ?thesis by simp
    next
      case True
      with pk Inr have nf: "\<not> inherited field" and ts: "to_string v \<noteq> Inl Unmodelled"
        by (auto simp: plain_pair_def)
      from count_value_modelled [OF nf ts] Cons.IH [OF pl] Inr True show ?thesis
        by (cases "count_value t field v") auto
    qed
  qed
qed

lemma tally_files_modelled:
  assumes "plain_input files fs"
  shows "tally_files t files fs \<noteq> Inl Unmodelled"
  using assms
proof (induction files arbitrary: t)
  case Nil
  then show ?case by simp
next
  case (Cons x xs)
  then have pl1: "list_all (plain_pair x) fs" and pl: "plain_input xs fs"
    by (simp_all add: plain_input_def)
  from tally_fields_modelled [OF pl1] Cons.IH [OF pl] show ?case
    by (cases "tally_fields t x fs") auto
qed

lemma tally_engine_modelled:
  assumes "plain_input files fs"
  shows "tally_engine files fs \<noteq> Inl Unmodelled"
  using tally_files_modelled [OF assms] by (simp add: tally_engine_def)

lemma tally_fields_returns:
  assumes "list_all (plain_pair file) fs"
  shows "(\<exists>t'. tally_fields t file fs = Inr t') \<longleftrightarrow> list_all (can_count file) fs"
  using assms
proof (induction fs arbitrary: t)
  case Nil
  then show ?case by simp
next
  case (Cons field fs)
  then have pk: "plain_pair file field" and pl: "list_all (plain_pair file) fs"
    by simp_all
  show ?case
  proof (cases "getObjectFieldValue file field")
    case (Inl e)
    then show ?thesis by (simp add: can_count_def)
  next
    case (Inr v)
    show ?thesis
    proof (cases "truthy v")
      case False
      with Inr Cons.IH [OF pl] show ?thesis
        by (simp add: can_count_def)
    next
      case True
      with pk Inr have nf: "\<not> inherited field"
        by (simp add: plain_pair_def)
      show ?thesis
      proof (cases "count_value t field v")
        case (Inl e)
        with count_value_returns [OF nf, of t v]
        have "\<not> (\<exists>key. to_string v = Inr key)" by simp
        then have "\<not> can_count file field"
          using Inr True by (auto simp: can_count_def split: sum.splits)
        with Inr True Inl show ?thesis by simp
      next
        case step: (Inr t1)
        with count_value_returns [OF nf, of t v]
        have "\<exists>key. to_string v = Inr key" by auto
        then have ok: "can_count file field"
          using Inr True by (auto simp: can_count_def)
        from Cons.IH [OF pl] Inr True step ok show ?thesis by simp
      qed
    qed
  qed
qed

lemma tally_files_returns:
  assumes "plain_input files fs"
  shows "(\<exists>t'. tally_files t files fs = Inr t')
         \<longleftrightarrow> list_all (\<lambda>file. list_all (can_count file) fs) files"
  using assms
proof (induction files arbitrary: t)
  case Nil
  then show ?case by simp
next
  case (Cons x xs)
  then have pl1: "list_all (plain_pair x) fs" and pl: "plain_input xs fs"
    by (simp_all add: plain_input_def)
  show ?case
  proof (cases "tally_fields t x fs")
    case (Inl e)
    with tally_fields_returns [OF pl1, of t] show ?thesis by auto
  next
    case (Inr t1)
    with tally_fields_returns [OF pl1, of t] have ok: "list_all (can_count x) fs"
      by auto
    from Cons.IH [OF pl] Inr ok show ?thesis by simp
  qed
qed

lemma update_not_Nil: "AList.update k v al \<noteq> []"
  by (cases al) auto

lemma count_value_inner_nonempty:
  assumes "\<forall>f cs. map_of t f = Some cs \<longrightarrow> cs \<noteq> []"
    and "count_value t field v = Inr t'"
    and "to_string v = Inr key" and "\<not> inherited key" and "\<not> inherited field"
  shows "\<forall>f cs. map_of t' f = Some cs \<longrightarrow> cs \<noteq> []"
proof (intro allI impI)
  fix f cs
  assume held: "map_of t' f = Some cs"
  from assms(2,3,5) obtain c cs0 where "t' = AList.update field (assign key c cs0) t"
    by (auto simp: count_value_def split: option.splits if_splits)
  with assms(4) held have "map_of t f = Some cs \<or> cs = AList.update key c cs0"
    by (auto simp: assign_plain update_conv' split: if_splits)
  then show "cs \<noteq> []"
  proof
    assume "map_of t f = Some cs"
    with assms(1) show ?thesis by blast
  next
    assume "cs = AList.update key c cs0"
    then show ?thesis by (simp add: update_not_Nil)
  qed
qed

lemma tally_fields_inner_nonempty:
  assumes "\<forall>f cs. map_of t f = Some cs \<longrightarrow> cs \<noteq> []"
    and "tally_fields t file fs = Inr t'"
    and "list_all (plain_pair file) fs"
  shows "\<forall>f cs. map_of t' f = Some cs \<longrightarrow> cs \<noteq> []"
  using assms
proof (induction fs arbitrary: t)
  case Nil
  then show ?case by auto
next
  case (Cons field fs)
  from Cons.prems(2) obtain v where v: "getObjectFieldValue file field = Inr v"
    by (cases "getObjectFieldValue file field") auto
  show ?case
  proof (cases "truthy v")
    case False
    with v Cons.prems have "tally_fields t file fs = Inr t'" "list_all (plain_pair file) fs"
      by auto
    from Cons.IH [OF Cons.prems(1) this] show ?thesis .
  next
    case True
    with v Cons.prems(2) obtain t1 where step: "count_value t field v = Inr t1"
      and run: "tally_fields t1 file fs = Inr t'"
      by (cases "count_value t field v") auto
    from count_value_key [OF step] obtain key where key: "to_string v = Inr key" by blast
    from Cons.prems(3) have pk: "plain_pair file field" and pl: "list_all (plain_pair file) fs"
      by simp_all
    from pk v True key have plain: "\<not> inherited key" and nf: "\<not> inherited field"
      by (simp_all add: plain_pair_def)
    from Cons.IH [OF count_value_inner_nonempty [OF Cons.prems(1) step key plain nf] run pl]
    show ?thesis .
  qed
qed

lemma tally_files_inner_nonempty:
  assumes "\<forall>f cs. map_of t f = Some cs \<longrightarrow> cs \<noteq> []"
    and "tally_files t files fs = Inr t'"
    and "plain_input files fs"
  shows "\<forall>f cs. map_of t' f = Some cs \<longrightarrow> cs \<noteq> []"
  using assms
proof (induction files arbitrary: t)
  case Nil
  then show ?case by auto
next
  case (Cons x xs)
  from Cons.prems(2) obtain t1 where one: "tally_fields t x fs = Inr t1"
    and run: "tally_files t1 xs fs = Inr t'"
    by (cases "tally_fields t x fs") auto
  from Cons.prems(3) have pl1: "list_all (plain_pair x) fs" and pl: "plain_input xs fs"
    by (simp_all add: plain_input_def)
  from Cons.IH [OF tally_fields_inner_nonempty [OF Cons.prems(1) one pl1] run pl]
  show ?case .
qed

lemma count_filter_mset:
  "mset xs = mset ys \<Longrightarrow> length (filter P xs) = length (filter P ys)"
  by (metis mset_filter size_mset)

lemma split_dot_segment:
  "CHR ''.'' \<notin> set a \<Longrightarrow> split_dot (a @ CHR ''.'' # rest) = a # split_dot rest"
  by (induction a) auto

lemma hex_digits_all:
  "list_all (\<lambda>d. is_hex (hex_digit d) \<and> hex_value (hex_digit d) = d \<and> hex_digit d \<noteq> CHR ''u'')
     [0..<16]"
  by code_simp

lemma hex_digit_facts:
  assumes "d < 16"
  shows "is_hex (hex_digit d)" and "hex_value (hex_digit d) = d" and "hex_digit d \<noteq> CHR ''u''"
proof -
  from assms have "d \<in> set [0..<16]" by simp
  with hex_digits_all
  have "is_hex (hex_digit d) \<and> hex_value (hex_digit d) = d \<and> hex_digit d \<noteq> CHR ''u''"
    unfolding list_all_iff by blast
  then show "is_hex (hex_digit d)" and "hex_value (hex_digit d) = d" and "hex_digit d \<noteq> CHR ''u''"
    by simp_all
qed

lemma byte_of_ascii: "(of_char c :: nat) < 128 \<Longrightarrow> char_of (unat (of_nat (of_char c) :: 8 word)) = c"
  by (simp add: unat_of_nat)

lemma unescape_percent:
  "unescape (percent b @ rest)
   = (case unescape rest of Inl e \<Rightarrow> Inl e | Inr r \<Rightarrow> Inr (char_of (unat b) # r))"
proof -
  have hi: "unat b div 16 < 16" and lo: "unat b mod 16 < 16"
    using unsigned_less [of b, where 'a = nat] by simp_all
  have val: "16 * (unat b div 16) + unat b mod 16 = unat b" by simp
  show ?thesis
    using hex_digit_facts [OF hi] hex_digit_facts [OF lo] val
    by (cases "unescape rest") (simp_all add: percent_def hex_number_def)
qed

lemma unreserved_ascii: "unreserved c \<Longrightarrow> (of_char c :: nat) < 128 \<and> c \<noteq> CHR ''%''"
  by (auto simp: unreserved_def Let_def)

lemma unescape_plain:
  "c \<noteq> CHR ''%'' \<Longrightarrow>
   unescape (c # rest) = (case unescape rest of Inl e \<Rightarrow> Inl e | Inr r \<Rightarrow> Inr (c # r))"
  by (cases "unescape rest") simp_all

lemma unescape_percents:
  "unescape (concat (map percent bs) @ rest)
   = (case unescape rest of Inl e \<Rightarrow> Inl e | Inr r \<Rightarrow> Inr (binary_string bs @ r))"
proof (induction bs)
  case Nil
  then show ?case by (cases "unescape rest") (simp_all add: binary_string_def)
next
  case (Cons b bs)
  have "unescape (concat (map percent (b # bs)) @ rest)
        = unescape (percent b @ (concat (map percent bs) @ rest))"
    by simp
  also have "\<dots> = (case unescape (concat (map percent bs) @ rest) of
                      Inl e \<Rightarrow> Inl e | Inr r \<Rightarrow> Inr (char_of (unat b) # r))"
    by (rule unescape_percent)
  finally show ?case
    using Cons.IH by (cases "unescape rest") (simp_all add: binary_string_def)
qed

lemma unescape_encodeURIComponent:
  "unescape (encodeURIComponent s) = Inr (binary_string (concat (map utf8 s)))"
proof (induction s)
  case Nil
  then show ?case by (simp add: encodeURIComponent_def binary_string_def)
next
  case (Cons c s)
  have split: "encodeURIComponent (c # s)
               = (if unreserved c then [c] else concat (map percent (utf8 c))) @ encodeURIComponent s"
    by (simp add: encodeURIComponent_def)
  have bin: "binary_string (xs @ ys) = binary_string xs @ binary_string ys" for xs ys
    by (simp add: binary_string_def)
  show ?case
  proof (cases "unreserved c")
    case True
    from unreserved_ascii [OF True] have "binary_string (utf8 c) = [c]"
      by (simp add: utf8_def binary_string_def byte_of_ascii)
    with True unreserved_ascii [OF True] Cons.IH show ?thesis
      by (simp add: split bin unescape_plain del: unescape.simps)
  next
    case False
    with Cons.IH show ?thesis
      by (simp add: split bin unescape_percents del: unescape.simps)
  qed
qed

lemma join_fields_concat:
  "fs \<noteq> [] \<Longrightarrow> sep @ join_with sep (map g fs) = concat (map (\<lambda>f. sep @ g f) fs)"
proof (induction fs)
  case Nil
  then show ?case by simp
next
  case (Cons f fs)
  then show ?case by (cases fs) simp_all
qed

subsection \<open>The resolver on a missing path\<close>

text \<open>
  Claim C1 says the resolver never raises and yields the absent value when an
  intermediate piece of the path is missing. The code reads the next piece from
  \<^verbatim>\<open>undefined\<close>, which throws: for the file record \<^verbatim>\<open>{}\<close> and the path
  \<^verbatim>\<open>a.b\<close> the resolver ends in a TypeError, and so does the tally engine, which
  does not skip the file.
\<close>

theorem resolver_throws_on_missing_intermediate:
  "getObjectFieldValue (JObj []) ''a.b'' = Inl TypeError
   \<and> tally_engine [JObj []] [''a.b''] = Inl TypeError"
  by (simp add: tally_eval)

text \<open>
  The same for every record and path of this shape: when the record has no property
  \<open>a\<close>, the path \<open>a.b\<close> throws; when \<open>a\<close> is there and holds an object without
  \<open>b\<close>, the path gives \<^verbatim>\<open>undefined\<close>.
\<close>

lemma missing_intermediate_throws:
  assumes "map_of kvs a = None" and "\<not> inherited a"
    and "CHR ''.'' \<notin> set a" and "CHR ''.'' \<notin> set b"
  shows "getObjectFieldValue (JObj kvs) (a @ ''.'' @ b) = Inl TypeError"
  using assms by (simp add: getObjectFieldValue_def split_dot_segment split_dot_no_dot)

lemma missing_last_is_undefined:
  assumes "map_of kvs a = Some (JObj inner)" and "map_of inner b = None" and "\<not> inherited b"
    and "CHR ''.'' \<notin> set a" and "CHR ''.'' \<notin> set b"
  shows "getObjectFieldValue (JObj kvs) (a @ ''.'' @ b) = Inr JUndefined"
  using assms by (simp add: getObjectFieldValue_def split_dot_segment split_dot_no_dot)

subsection \<open>A failed search\<close>

text \<open>
  Claim C2 says that after a failed search the tally stage does not throw and yields an
  empty table. The search client does resolve to \<^verbatim>\<open>undefined\<close> for a response that
  is not OK and for a transport failure, but the tally stage then reads
  \<^verbatim>\<open>'@graph'\<close> from \<^verbatim>\<open>undefined\<close> and ends in a TypeError, whatever the
  requested field paths are.
\<close>

theorem failed_search_rejects_tally:
  "fst (cartQuery_result (Responded False parsed)) = JUndefined
   \<and> fst (cartQuery_result (Rejected e)) = JUndefined
   \<and> filePropCountPromise (fst (cartQuery_result (Responded False parsed))) fileFields
       = Inl TypeError
   \<and> filePropCountPromise (fst (cartQuery_result (Rejected e))) fileFields = Inl TypeError"
  by (simp add: cartQuery_result_def filePropCountPromise_def graph_experiments_def)

subsection \<open>What the counts count\<close>

text \<open>
  Claim C3 as stated fails: a field path requested twice is counted twice for each
  file. Here one file resolves \<^verbatim>\<open>a\<close> to \<^verbatim>\<open>"x"\<close>, and the table holds 2.
\<close>

theorem duplicate_field_counted_twice:
  "tally_engine [JObj [(''a'', JStr ''x'')]] [''a'', ''a''] = Inr [(''a'', [(''x'', Count 2)])]
   \<and> stored [(''a'', [(''x'', Count 2)])] ''a'' ''x'' = Some (Count 2)
   \<and> field_total [(''a'', [(''x'', Count 2)])] ''a'' = 2
   \<and> length (filter (\<lambda>file. resolves_to file ''a'' ''x'') [JObj [(''a'', JStr ''x'')]]) = 1
   \<and> length (filter (\<lambda>file. resolves_truthy file ''a'') [JObj [(''a'', JStr ''x'')]]) = 1"
  by (simp add: tally_eval stored_def field_total_def resolves_to_def resolves_truthy_def)

text \<open>
  Claim C3, amended. Take a list of file records and a list of requested field paths
  such that, for every file and every requested path, resolving the path reads no
  property that a value inherits from a built-in prototype, and whenever it resolves to
  a truthy value, neither the field path itself nor the string form of the value is a
  property name that plain objects inherit (numbers being integers of magnitude at most
  \<open>2 ^ 53\<close>). Then the tally engine either throws a TypeError, or returns a table in
  which, for every field path and every key, the stored count is the number of file
  records whose path resolves to a truthy value with that string form, multiplied by the
  number of times the field path occurs in the requested list, with no entry when that
  number is zero; and the counts of a field path add up to the number of file records
  whose path resolves to a truthy value, multiplied in the same way.
\<close>

theorem tally_counts_files:
  assumes "plain_input files fileFields"
  shows "case tally_engine files fileFields of
           Inl e \<Rightarrow> e = TypeError
         | Inr t \<Rightarrow>
             stored t field key
               = count_cell (count_list fileFields field
                              * length (filter (\<lambda>file. resolves_to file field key) files))
             \<and> field_total t field
                 = count_list fileFields field
                     * length (filter (\<lambda>file. resolves_truthy file field) files)"
proof (cases "tally_engine files fileFields")
  case (Inl e)
  with tally_engine_modelled [OF assms] have "e = TypeError"
    by (cases e) auto
  with Inl show ?thesis by simp
next
  case (Inr t)
  with tally_engine_stored [OF Inr assms] show ?thesis by simp
qed

theorem tally_counts_files_witness:
  "plain_input
     [JObj [(''a'', JStr ''x'')], JObj [(''a'', JStr ''x'')], JObj [(''a'', JNum 5)],
      JObj [(''a'', JObj [(''b'', JStr ''y'')])]]
     [''a.b'', ''a'']
   \<and> tally_engine
       [JObj [(''a'', JStr ''x'')], JObj [(''a'', JStr ''x'')], JObj [(''a'', JNum 5)],
        JObj [(''a'', JObj [(''b'', JStr ''y'')])]]
       [''a.b'', ''a'']
       = Inr [(''a'', [(''x'', Count 2), (''5'', Count 1), (''[object Object]'', Count 1)]),
              (''a.b'', [(''y'', Count 1)])]
   \<and> count_cell (count_list [''a.b'', ''a''] ''a'' * length (filter (\<lambda>file. resolves_to file ''a'' ''x'')
         [JObj [(''a'', JStr ''x'')], JObj [(''a'', JStr ''x'')], JObj [(''a'', JNum 5)],
          JObj [(''a'', JObj [(''b'', JStr ''y'')])]]))
       = Some (Count 2)
   \<and> count_list [''a.b'', ''a''] ''a'' * length (filter (\<lambda>file. resolves_truthy file ''a'')
         [JObj [(''a'', JStr ''x'')], JObj [(''a'', JStr ''x'')], JObj [(''a'', JNum 5)],
          JObj [(''a'', JObj [(''b'', JStr ''y'')])]])
       = 4"
proof -
  let ?files = "[JObj [(''a'', JStr ''x'')], JObj [(''a'', JStr ''x'')], JObj [(''a'', JNum 5)],
                 JObj [(''a'', JObj [(''b'', JStr ''y'')])]]"
  let ?t = "[(''a'', [(''x'', Count 2), (''5'', Count 1), (''[object Object]'', Count 1)]),
             (''a.b'', [(''y'', Count 1)])]"
  have five: "char_of (53 :: nat) = CHR ''5''"
    by code_simp
  have plain: "plain_input ?files [''a.b'', ''a'']"
    by (simp add: plain_input_def plain_pair_def resolver_eval decimal_def five)
  have run: "tally_engine ?files [''a.b'', ''a''] = Inr ?t"
    by (simp add: tally_eval decimal_def five)
  have held: "stored ?t ''a'' ''x'' = Some (Count 2)" "field_total ?t ''a'' = 4"
    by (simp_all add: stored_def field_total_def)
  from tally_counts_files [OF plain, of "''a''" "''x''"] run plain held
  show ?thesis by simp
qed

text \<open>
  On such input the engine returns a table exactly when every requested path of every
  file resolves without an exception and every truthy value converts to a string.
\<close>

lemma tally_engine_returns:
  assumes "plain_input files fs"
  shows "(\<exists>t. tally_engine files fs = Inr t)
         \<longleftrightarrow> list_all (\<lambda>file. list_all (can_count file) fs) files"
  using tally_files_returns [OF assms, of "[]"] by (simp add: tally_engine_def)

text \<open>
  A field path that plain objects inherit leaves no entry: the input
  \<^verbatim>\<open>[{constructor: "x"}]\<close> with the field path \<^verbatim>\<open>constructor\<close> returns the
  empty table. A number in the middle of a path reads as \<^verbatim>\<open>undefined\<close> and is
  skipped.
\<close>

lemma inherited_field_leaves_no_entry:
  "tally_engine [JObj [(''constructor'', JStr ''x'')]] [''constructor''] = Inr []"
  by (simp add: tally_eval)

lemma number_in_path_is_skipped:
  "tally_engine [JObj [(''a'', JNum 5)], JObj [(''a'', JObj [(''b'', JStr ''x'')])]] [''a.b'']
   = Inr [(''a.b'', [(''x'', Count 1)])]"
  by (simp add: tally_eval)

subsection \<open>The order of the files\<close>

text \<open>
  Claim C4 says that the counts do not depend on the order of the file list. When a
  file's value is a name that plain objects inherit, such as \<^verbatim>\<open>toString\<close>, they
  do: seen first, the value gets the count 1; seen after another value of the same field,
  the test \<^verbatim>\<open>filePropCounts[field][fieldValue]\<close> finds the inherited built-in,
  and \<^verbatim>\<open>+= 1\<close> stores a text instead of a count.
\<close>

theorem tally_depends_on_file_order:
  "tally_engine [JObj [(''a'', JStr ''x'')], JObj [(''a'', JStr ''toString'')]] [''a'']
     = Inr [(''a'', [(''x'', Count 1), (''toString'', Text)])]
   \<and> tally_engine [JObj [(''a'', JStr ''toString'')], JObj [(''a'', JStr ''x'')]] [''a'']
     = Inr [(''a'', [(''toString'', Count 1), (''x'', Count 1)])]"
  by (simp add: tally_eval)

text \<open>
  On input that keeps to plain names (\<open>plain_input\<close>) the order does not matter: a
  permutation of the files is tallied if the files are, and the two tables hold the same
  for every field path and key.
\<close>

lemma tally_order_independent:
  assumes "mset files' = mset files"
    and "tally_engine files fs = Inr t" and "tally_engine files' fs = Inr t'"
    and "plain_input files fs"
  shows "stored t' f k = stored t f k"
proof -
  from assms(1) have "set files' = set files" by (rule mset_eq_setD)
  with assms(4) have "plain_input files' fs"
    by (simp add: plain_input_def list_all_iff)
  from tally_engine_stored(1) [OF assms(3) this, of f k] tally_engine_stored(1) [OF assms(2,4), of f k]
    count_filter_mset [OF assms(1)]
  show ?thesis by simp
qed

lemma tally_returns_for_permutation:
  assumes "mset files' = mset files" and "tally_engine files fs = Inr t"
    and "plain_input files fs"
  shows "\<exists>t'. tally_engine files' fs = Inr t'"
proof -
  from assms(1) have same: "set files' = set files" by (rule mset_eq_setD)
  with assms(3) have "plain_input files' fs"
    by (simp add: plain_input_def list_all_iff)
  from tally_engine_returns [OF this] tally_engine_returns [OF assms(3)] assms(2) same
  show ?thesis by (auto simp: list_all_iff)
qed

subsection \<open>The resolver's fast path\<close>

text \<open>
  Claim C5. For every file record and every field path without a dot, the direct
  property read that \<open>getObjectFieldValue\<close> takes for a one-piece path gives the same
  outcome (the same value, or the same exception) as the piece-by-piece descent of the
  general case.
\<close>

theorem fast_path_agrees_with_descent:
  assumes "CHR ''.'' \<notin> set field"
  shows "getObjectFieldValue object field = get_prop object field \<and>
         get_prop object field = descend (Inr object) (split_dot field)"
  using assms by (simp add: getObjectFieldValue_def split_dot_no_dot)

theorem fast_path_agrees_with_descent_witness:
  "CHR ''.'' \<notin> set ''restricted'' \<and>
   getObjectFieldValue (JObj [(''restricted'', JBool True)]) ''restricted'' = Inr (JBool True) \<and>
   descend (Inr (JObj [(''restricted'', JBool True)])) (split_dot ''restricted'') = Inr (JBool True)"
proof -
  have nodot: "CHR ''.'' \<notin> set ''restricted''" by simp
  have "descend (Inr (JObj [(''restricted'', JBool True)])) (split_dot ''restricted'')
        = Inr (JBool True)"
    by (simp add: split_dot_no_dot [OF nodot])
  with nodot fast_path_agrees_with_descent [OF nodot, of "JObj [(''restricted'', JBool True)]"]
  show ?thesis by simp
qed

subsection \<open>The examples of the specification\<close>

text \<open>
  Claim C6. The files \<^verbatim>\<open>[{restricted: true}, {restricted: false}, {}]\<close> with the
  field path \<^verbatim>\<open>restricted\<close> give the tally \<^verbatim>\<open>{"true": 1}\<close> for that field:
  the value \<^verbatim>\<open>true\<close> is counted once under the key \<^verbatim>\<open>"true"\<close>, and
  \<^verbatim>\<open>false\<close> and the missing property add nothing.
\<close>

theorem restricted_example:
  "tally_engine
     [JObj [(''restricted'', JBool True)], JObj [(''restricted'', JBool False)], JObj []]
     [''restricted'']
   = Inr [(''restricted'', [(''true'', Count 1)])]"
  by (simp add: tally_eval)

text \<open>
  Claim C7. The files \<^verbatim>\<open>[{a:{b:"x"}}, {a:{b:"x"}}, {a:{b:"y"}}, {a:{}}]\<close> with the
  field path \<^verbatim>\<open>a.b\<close> give the tally \<^verbatim>\<open>{"x": 2, "y": 1}\<close> for that field; the
  fourth file, whose path resolves to \<^verbatim>\<open>undefined\<close>, adds nothing.
\<close>

theorem nested_path_example:
  "tally_engine
     [JObj [(''a'', JObj [(''b'', JStr ''x'')])], JObj [(''a'', JObj [(''b'', JStr ''x'')])],
      JObj [(''a'', JObj [(''b'', JStr ''y'')])], JObj [(''a'', JObj [])]]
     [''a.b'']
   = Inr [(''a.b'', [(''x'', Count 2), (''y'', Count 1)])]
   \<and> getObjectFieldValue (JObj [(''a'', JObj [])]) ''a.b'' = Inr JUndefined"
  by (simp add: tally_eval)

subsection \<open>The search request\<close>

text \<open>
  Claim C8 as stated fails for the empty list of field paths: the code joins the field
  parameters and puts \<^verbatim>\<open>&\<close> on both sides of the result, so the URL has
  \<^verbatim>\<open>&&\<close> where the specification's URL has one \<^verbatim>\<open>&\<close>.
\<close>

theorem empty_field_list_url:
  "url (cartQuery_request (\<lambda>v. []) (JArr []) [] ''h'' ''auth'')
     = ''h/search_elements/type=Experiment&&field=files.restricted&limit=all&filterresponse=off''
   \<and> spec_search_url ''h'' []
     = ''h/search_elements/type=Experiment&field=files.restricted&limit=all&filterresponse=off''"
  by (simp add: cartQuery_request_def spec_search_url_def)

text \<open>
  Claim C8, amended. For every list of field paths that is not empty and every server
  base URL, the request of the search client is a POST to the URL of the specification,
  with the headers \<^verbatim>\<open>Accept: application/json\<close>,
  \<^verbatim>\<open>Content-Type: application/json\<close> and the authorization value, in this order,
  and its body is the JSON text of the object \<^verbatim>\<open>{"@id": experiments}\<close>.
\<close>

theorem cartQuery_request_as_specified:
  assumes "field_paths \<noteq> []"
  shows "cartQuery_request stringify experiments field_paths server auth
         = \<lparr> url = spec_search_url server field_paths,
             http_method = ''POST'',
             headers = [(''Accept'', ''application/json''),
                        (''Content-Type'', ''application/json''),
                        (''Authorization'', auth)],
             body = stringify (JObj [(''@id'', experiments)]) \<rparr>"
proof -
  have "''&'' @ join_with ''&'' (map (\<lambda>field. ''field=files.'' @ field) field_paths)
        = concat (map (\<lambda>f. ''&'' @ ''field=files.'' @ f) field_paths)"
    using assms by (rule join_fields_concat)
  then have "''/search_elements/type=Experiment&''
               @ join_with ''&'' (map (\<lambda>field. ''field=files.'' @ field) field_paths)
             = ''/search_elements/type=Experiment''
               @ concat (map (\<lambda>f. ''&field=files.'' @ f) field_paths)"
    by simp
  then show ?thesis
    by (simp add: cartQuery_request_def spec_search_url_def)
qed

theorem cartQuery_request_as_specified_witness:
  "[''file_format'', ''award.rfa''] \<noteq> []
   \<and> url (cartQuery_request (\<lambda>v. []) (JArr [JStr ''/experiments/E1/'']) [''file_format'', ''award.rfa'']
            ''https://host'' ''Basic azpz'')
     = ''https://host/search_elements/type=Experiment&field=files.file_format&field=files.award.rfa&field=files.restricted&limit=all&filterresponse=off''
   \<and> http_method (cartQuery_request (\<lambda>v. []) (JArr [JStr ''/experiments/E1/''])
            [''file_format'', ''award.rfa''] ''https://host'' ''Basic azpz'') = ''POST''"
proof -
  have nonempty: "[''file_format'', ''award.rfa''] \<noteq> []" by simp
  from cartQuery_request_as_specified [OF nonempty, of "\<lambda>v. []" "JArr [JStr ''/experiments/E1/'']"
      "''https://host''" "''Basic azpz''"]
  show ?thesis by (simp add: spec_search_url_def)
qed

subsection \<open>The authorization header\<close>

text \<open>
  Claim C9 says the header is \<^verbatim>\<open>Basic\<close> and the base64 encoding of
  \<^verbatim>\<open>key:secret\<close> for every key and secret. The code converts the string to its
  UTF-8 bytes (\<^verbatim>\<open>unescape(encodeURIComponent(...))\<close>) and \<^verbatim>\<open>Buffer.from\<close>
  then encodes those bytes as UTF-8 once more, so a character outside ASCII is encoded
  twice: for the key made of the one character U+00E9 (e with an acute accent) and the secret \<^verbatim>\<open>s\<close> the code gives the
  base64 of the bytes C3 83 C2 A9 3A 73, not of C3 A9 3A 73.
\<close>

theorem auth_encodes_non_ascii_twice:
  "keypairToAuth [CHR 0xE9] ''s'' = Inr ''Basic w4PCqTpz''
   \<and> spec_authorization [CHR 0xE9] ''s'' = ''Basic w6k6cw==''"
  by (simp add: keypairToAuth_def encodeURIComponent_def unreserved_def utf8_def percent_def
      hex_digit_def is_hex_def hex_number_def hex_value_def buffer_from_def base64_char_def
      spec_authorization_def)

text \<open>
  What the code computes for every key and secret, and that it is the header of the
  specification when both are ASCII.
\<close>

lemma keypairToAuth_bytes:
  "keypairToAuth key secret
   = Inr (''Basic '' @ base64 (buffer_from (binary_string (concat (map utf8 (key @ '':'' @ secret))))))"
  by (simp add: keypairToAuth_def unescape_encodeURIComponent)

lemma binary_string_ascii:
  "list_all (\<lambda>c. (of_char c :: nat) < 128) s \<Longrightarrow> binary_string (concat (map utf8 s)) = s"
  by (induction s) (simp_all add: binary_string_def utf8_def byte_of_ascii)

lemma keypairToAuth_ascii:
  assumes "list_all (\<lambda>c. (of_char c :: nat) < 128) (key @ secret)"
  shows "keypairToAuth key secret = Inr (spec_authorization key secret)"
proof -
  from assms have "list_all (\<lambda>c. (of_char c :: nat) < 128) (key @ '':'' @ secret)" by simp
  then have "binary_string (concat (map utf8 (key @ '':'' @ secret))) = key @ '':'' @ secret"
    by (rule binary_string_ascii)
  then show ?thesis
    by (simp only: keypairToAuth_bytes buffer_from_def spec_authorization_def)
qed


subsection \<open>What the table stores\<close>

text \<open>
  Claim C10 says every stored count is a positive integer. For a value that is a name
  plain objects inherit, seen after another value of the same field, the program stores
  a text: the files \<^verbatim>\<open>[{a: "x"}, {a: "constructor"}]\<close> with the field path
  \<^verbatim>\<open>a\<close> leave a text under the key \<^verbatim>\<open>constructor\<close>.
\<close>

theorem tally_stores_text_for_inherited_key:
  "tally_engine [JObj [(''a'', JStr ''x'')], JObj [(''a'', JStr ''constructor'')]] [''a'']
     = Inr [(''a'', [(''x'', Count 1), (''constructor'', Text)])]
   \<and> stored [(''a'', [(''x'', Count 1), (''constructor'', Text)])] ''a'' ''constructor''
     = Some Text"
  by (simp add: tally_eval stored_def)

text \<open>
  On input that keeps to plain names (\<open>plain_input\<close>) every stored cell is a positive
  count, and a field path is a key of the table exactly when it is requested and some
  file resolves it to a truthy value.
\<close>

lemma tally_cells_positive:
  assumes "tally_engine files fs = Inr t" and "plain_input files fs"
    and "stored t f k = Some c"
  shows "\<exists>n. c = Count n \<and> 0 < n"
  using tally_engine_stored(1) [OF assms(1,2), of f k] assms(3)
  by (auto simp: count_cell_def split: if_splits)


lemma tally_outer_keys:
  assumes run: "tally_engine files fs = Inr t" and plain: "plain_input files fs"
  shows "map_of t f \<noteq> None \<longleftrightarrow> f \<in> set fs \<and> (\<exists>file\<in>set files. resolves_truthy file f)"
proof
  assume "map_of t f \<noteq> None"
  then obtain cs where cs: "map_of t f = Some cs" by blast
  from run have "tally_files [] files fs = Inr t" by (simp add: tally_engine_def)
  from tally_files_inner_nonempty [OF _ this plain] cs have "cs \<noteq> []" by simp
  then obtain k c rest where "cs = (k, c) # rest" by (cases cs) auto
  with cs have "stored t f k = Some c" by (simp add: stored_def)
  with tally_engine_stored(1) [OF run plain, of f k]
  have pos: "count_list fs f * length (filter (\<lambda>file. resolves_to file f k) files) \<noteq> 0"
    by (auto simp: count_cell_def split: if_splits)
  then have "count_list fs f \<noteq> 0" and "filter (\<lambda>file. resolves_to file f k) files \<noteq> []"
    by auto
  then have "f \<in> set fs" and "\<exists>file\<in>set files. resolves_to file f k"
    by (auto simp: count_list_0_iff filter_empty_conv)
  then show "f \<in> set fs \<and> (\<exists>file\<in>set files. resolves_truthy file f)"
    using resolves_to_truthy by blast
next
  assume "f \<in> set fs \<and> (\<exists>file\<in>set files. resolves_truthy file f)"
  then obtain x where f: "f \<in> set fs" and x: "x \<in> set files" and tr: "resolves_truthy x f"
    by blast
  from run tally_engine_returns [OF plain] f x have "can_count x f"
    by (auto simp: list_all_iff)
  with tr obtain k where k: "resolves_to x f k"
    by (auto simp: can_count_def resolves_truthy_def resolves_to_def split: sum.splits if_splits)
  with x have "filter (\<lambda>file. resolves_to file f k) files \<noteq> []"
    by (auto simp: filter_empty_conv)
  moreover from f have "count_list fs f \<noteq> 0" by (simp add: count_list_0_iff)
  ultimately have "count_list fs f * length (filter (\<lambda>file. resolves_to file f k) files) \<noteq> 0"
    by simp
  with tally_engine_stored(1) [OF run plain, of f k] have "stored t f k \<noteq> None"
    by (simp add: count_cell_def)
  then show "map_of t f \<noteq> None"
    by (auto simp: stored_def split: option.splits)
qed


end
